theory Spec2Isabelle
  imports Complex_Main
begin

section \<open>The poker engine of \<^verbatim>\<open>cogs/poker.py\<close>\<close>

text \<open>
  The engine is the pair of classes \<^verbatim>\<open>PokerPlayer\<close> and \<^verbatim>\<open>PokerGame\<close>. Both are
  mutable Python objects; the model passes the game state explicitly. A Python
  exception does not undo the assignments made before it, so every operation returns
  the state it leaves behind together with the exception (if any) and the messages it
  sent through \<^verbatim>\<open>ctx.send\<close>.

  Money is \<^verbatim>\<open>Decimal\<close>: a value is a rational number, and every operation of the
  default decimal context rounds its result to 28 significant digits.
\<close>

subsection \<open>Constants\<close>

type_synonym card = "string \<times> string"

definition SUITS :: "string list" where
  "SUITS = [''H'', ''S'', ''C'', ''D'']"

text \<open>The ranks: \<^verbatim>\<open>str(i)\<close> for 2 to 10, then the four court ranks.\<close>

definition NUMBERS :: "string list" where
  "NUMBERS = map (\<lambda>c. [c]) ''23456789'' @ [''10'', ''J'', ''Q'', ''K'', ''A'']"

definition DECK :: "card list" where
  "DECK = concat (map (\<lambda>number. map (\<lambda>suit. (suit, number)) SUITS) NUMBERS)"

datatype status = STATUS_IN | STATUS_ALL_IN | STATUS_FOLDED

datatype move = MOVE_FOLD | MOVE_CHECK | MOVE_CALL | MOVE_RAISE | MOVE_ALL_IN

definition ROUND_STAGES :: "nat list" where
  "ROUND_STAGES = [0, 3, 4, 5]"

subsection \<open>Exceptions and messages\<close>

datatype exn = AttributeError | KeyError | IndexError | TypeError | ValueError
  | ZeroDivisionError

text \<open>One constructor for each text the engine sends, in the order of the source.\<close>

datatype msg =
    CannotJoin
  | AlreadyIn string
  | Joined string
  | CannotStart
  | HostMustStart
  | NeedThreePlayers
  | GameBoard string string string string rat "move list"
  | Won string rat
  | IsStatus string status
  | NoGame
  | NotParticipant
  | NotYourTurn
  | WhyFold
  | CantCheck rat
  | MustGoAllIn
  | Folded string
  | Checked string
  | Called string
  | Raised string rat rat rat
  | WentAllIn string rat

subsection \<open>Objects\<close>

text \<open>A chat user: the \<^verbatim>\<open>id\<close> and \<^verbatim>\<open>display_name\<close> the engine reads.\<close>

record user =
  user_id :: nat
  display_name :: string

record PokerPlayer =
  user_object :: user
  amount :: rat
  amount_in :: rat
  status :: status

record PokerGame =
  currency :: "(string \<times> string) list"
  host :: user
  round_no :: int
  round_limit :: int
  buy_in :: rat
  ongoing_game :: bool
  ongoing_round :: bool
  time_started :: int
  blind :: rat
  deck :: "card list"
  in_play :: "card option list"
  players :: "(nat \<times> PokerPlayer) list"
  players_order :: "nat list"
  dealer :: int
  small_blind :: int
  big_blind :: int
  starting_player :: int
  turn :: int
  bet :: rat
  pot :: rat
  side_pots :: "(nat \<times> rat) list"

text \<open>
  The invocation context: the author of the command and the reading of the clock
  (\<^verbatim>\<open>datetime.now()\<close>) at that moment.
\<close>

record ctx =
  author :: user
  now :: int

type_synonym result = "exn option \<times> msg list \<times> PokerGame"

subsection \<open>Python containers\<close>

text \<open>
  \<^verbatim>\<open>xs[i]\<close>: positions \<open>0\<close> to \<open>len - 1\<close> from the front, \<open>-1\<close> down to \<open>-len\<close>
  from the back, \<^verbatim>\<open>IndexError\<close> for any other index.
\<close>

definition py_index :: "'a list \<Rightarrow> int \<Rightarrow> exn + 'a" where
  "py_index xs i =
     (if 0 \<le> i \<and> i < int (length xs) then Inr (xs ! nat i)
      else if i < 0 \<and> - int (length xs) \<le> i then Inr (xs ! nat (int (length xs) + i))
      else Inl IndexError)"

text \<open>
  A \<^verbatim>\<open>dict\<close> is an association list in insertion order with distinct keys;
  \<^verbatim>\<open>d[k]\<close> raises \<^verbatim>\<open>KeyError\<close> on a missing key.
\<close>

definition py_getitem :: "('k \<times> 'v) list \<Rightarrow> 'k \<Rightarrow> exn + 'v" where
  "py_getitem d k = (case map_of d k of None \<Rightarrow> Inl KeyError | Some v \<Rightarrow> Inr v)"

text \<open>
  The players are objects held by the dict; a method called on one of them changes the
  object stored under its key.
\<close>

fun update_player ::
  "nat \<Rightarrow> (PokerPlayer \<Rightarrow> PokerPlayer) \<Rightarrow> (nat \<times> PokerPlayer) list \<Rightarrow> (nat \<times> PokerPlayer) list"
where
  "update_player k f [] = []"
| "update_player k f (kp # ps) =
     (if fst kp = k then (fst kp, f (snd kp)) # ps else kp # update_player k f ps)"

text \<open>\<^verbatim>\<open>list.index\<close>: the first position of a value, \<^verbatim>\<open>ValueError\<close> when absent.\<close>

fun list_index :: "'a list \<Rightarrow> 'a \<Rightarrow> exn + nat" where
  "list_index [] v = Inl ValueError"
| "list_index (x # xs) v =
     (if x = v then Inr 0
      else case list_index xs v of Inl e \<Rightarrow> Inl e | Inr i \<Rightarrow> Inr (Suc i))"

subsection \<open>Decimal arithmetic\<close>

text \<open>
  The default context of \<^verbatim>\<open>decimal\<close> has a precision of 28 digits and rounds half to
  even. An addition, subtraction or division returns the exact result rounded to 28
  significant digits: the result itself when it has no more digits than that. The
  values are finite (no \<^verbatim>\<open>NaN\<close>, no infinity), and the bounds of the context on the
  exponent, 999999 either way, are not modelled.

  \<open>adjusted\<close> is the exponent of the leading digit of a non-zero value, as
  \<^verbatim>\<open>Decimal.adjusted()\<close>: the \<open>e\<close> with \<open>10\<^sup>e \<le> \<bar>x\<bar> < 10\<^sup>e\<^sup>+\<^sup>1\<close>. It is found by
  dividing a value of at least 1 by ten until it is below ten, and by multiplying a
  value below 1 by ten until it is at least 1.
\<close>

function digits_above :: "rat \<Rightarrow> int" where
  "digits_above x = (if x < 10 then 0 else digits_above (x / 10) + 1)"
  by pat_completeness auto
termination
proof (relation "measure (\<lambda>x. nat \<lfloor>x\<rfloor>)")
  show "wf (measure (\<lambda>x::rat. nat \<lfloor>x\<rfloor>))" by simp
next
  fix x :: rat
  assume "\<not> x < 10"
  then have "\<lfloor>x / 10\<rfloor> < \<lfloor>x\<rfloor>" "0 < \<lfloor>x\<rfloor>"
    by linarith+
  then show "(x / 10, x) \<in> measure (\<lambda>x. nat \<lfloor>x\<rfloor>)" by simp
qed

function digits_below :: "rat \<Rightarrow> int" where
  "digits_below x = (if x \<le> 0 \<or> 1 \<le> x then 0 else digits_below (x * 10) - 1)"
  by pat_completeness auto
termination
proof (relation "measure (\<lambda>x. nat \<lceil>1 / x\<rceil>)")
  show "wf (measure (\<lambda>x::rat. nat \<lceil>1 / x\<rceil>))" by simp
next
  fix x :: rat
  assume "\<not> (x \<le> 0 \<or> 1 \<le> x)"
  then have x: "0 < x" "x < 1" by simp_all
  then have "1 < 1 / x" by simp
  then have c: "2 \<le> \<lceil>1 / x\<rceil>" by linarith
  have "1 / (x * 10) = (1 / x) / 10" by simp
  also have "\<dots> \<le> of_int \<lceil>1 / x\<rceil> / 10" by (simp add: divide_right_mono)
  finally have "\<lceil>1 / (x * 10)\<rceil> \<le> \<lceil>(of_int \<lceil>1 / x\<rceil> :: rat) / 10\<rceil>"
    by (rule ceiling_mono)
  also have "\<dots> < \<lceil>1 / x\<rceil>" using c by linarith
  finally have "nat \<lceil>1 / (x * 10)\<rceil> < nat \<lceil>1 / x\<rceil>" using c by linarith
  then show "(x * 10, x) \<in> measure (\<lambda>x. nat \<lceil>1 / x\<rceil>)" by simp
qed

declare digits_above.simps [simp del] digits_below.simps [simp del]

definition adjusted :: "rat \<Rightarrow> int" where
  "adjusted x = (if 1 \<le> \<bar>x\<bar> then digits_above \<bar>x\<bar> else digits_below \<bar>x\<bar>)"

text \<open>The nearest integer, the even one of two that are equally near.\<close>

definition round_half_even :: "rat \<Rightarrow> int" where
  "round_half_even y =
     (let f = \<lfloor>y\<rfloor>; r = y - of_int f
      in if r < 1 / 2 then f else if 1 / 2 < r then f + 1 else if even f then f else f + 1)"

text \<open>
  Rounding to the precision of the context: the value is cut at the 28th digit from
  its leading one, that is to a multiple of \<open>10\<close> to the power \<open>adjusted x - 27\<close>.
\<close>

definition dec_round :: "rat \<Rightarrow> rat" where
  "dec_round x =
     (if x = 0 then 0
      else let q = power_int 10 (adjusted x - 27)
           in of_int (round_half_even (x / q)) * q)"

definition dec_add :: "rat \<Rightarrow> rat \<Rightarrow> rat" where
  "dec_add x y = dec_round (x + y)"

definition dec_sub :: "rat \<Rightarrow> rat \<Rightarrow> rat" where
  "dec_sub x y = dec_round (x - y)"

text \<open>Division, by the constants \<^verbatim>\<open>Decimal(100)\<close> and \<^verbatim>\<open>Decimal(2)\<close> only.\<close>

definition dec_div :: "rat \<Rightarrow> rat \<Rightarrow> rat" where
  "dec_div x y = dec_round (x / y)"

subsection \<open>PokerPlayer\<close>

definition PokerPlayer_init :: "user \<Rightarrow> rat \<Rightarrow> PokerPlayer" where
  "PokerPlayer_init u a =
     \<lparr>user_object = u, amount = a, amount_in = 0, status = STATUS_IN\<rparr>"

definition name :: "PokerPlayer \<Rightarrow> string" where
  "name p = display_name (user_object p)"

definition discord_id :: "PokerPlayer \<Rightarrow> nat" where
  "discord_id p = user_id (user_object p)"

definition move_in :: "rat \<Rightarrow> PokerPlayer \<Rightarrow> PokerPlayer" where
  "move_in a p = p\<lparr>amount := dec_sub (amount p) a, amount_in := dec_add (amount_in p) a\<rparr>"

subsection \<open>PokerGame: construction and properties\<close>

definition PokerGame_init ::
  "(string \<times> string) list \<Rightarrow> user \<Rightarrow> int \<Rightarrow> rat \<Rightarrow> int \<Rightarrow> PokerGame"
where
  "PokerGame_init cur h rl b t =
     \<lparr>currency = cur, host = h, round_no = 1, round_limit = rl, buy_in = b,
      ongoing_game = False, ongoing_round = False, time_started = t,
      blind = dec_div b 100, deck = DECK,
      in_play = [None, None, None, None, None],
      players = [], players_order = [user_id h],
      dealer = 0, small_blind = 1, big_blind = 2, starting_player = - 1,
      turn = - 1, bet = 0, pot = 0, side_pots = []\<rparr>"

text \<open>
  \<^verbatim>\<open>num_folded\<close> iterates over the dict itself, that is over its keys, and subscripts
  each key with \<^verbatim>\<open>"status"\<close>. A key is a user id, an integer, which has no
  subscription: the first key raises \<^verbatim>\<open>TypeError\<close>.
\<close>

definition key_subscript :: "nat \<Rightarrow> string \<Rightarrow> exn + status" where
  "key_subscript p field = Inl TypeError"

fun count_folded :: "nat list \<Rightarrow> exn + nat" where
  "count_folded [] = Inr 0"
| "count_folded (p # ps) =
     (case key_subscript p ''status'' of
        Inl e \<Rightarrow> Inl e
      | Inr s \<Rightarrow>
          (case count_folded ps of
             Inl e \<Rightarrow> Inl e
           | Inr n \<Rightarrow> Inr (if s = STATUS_FOLDED then Suc n else n)))"

definition num_folded :: "PokerGame \<Rightarrow> exn + nat" where
  "num_folded g = count_folded (map fst (players g))"

text \<open>
  \<^verbatim>\<open>stage\<close> counts the slots of the board that are \<^verbatim>\<open>None\<close> and looks the count up
  in \<^verbatim>\<open>ROUND_STAGES\<close>.
\<close>

definition stage :: "PokerGame \<Rightarrow> exn + nat" where
  "stage g = list_index ROUND_STAGES (length (filter (\<lambda>c. c = None) (in_play g)))"

text \<open>
  The seat properties return the player object stored under the seat's id. The model
  also names the key, under which the state keeps the object.
\<close>

definition turn_key :: "PokerGame \<Rightarrow> exn + nat" where
  "turn_key g =
     (if length (players_order g) = 0 then Inl ZeroDivisionError
      else py_index (players_order g) (turn g mod int (length (players_order g))))"

definition player_at :: "PokerGame \<Rightarrow> exn + nat \<Rightarrow> exn + PokerPlayer" where
  "player_at g k = (case k of Inl e \<Rightarrow> Inl e | Inr i \<Rightarrow> py_getitem (players g) i)"

definition turn_player :: "PokerGame \<Rightarrow> exn + PokerPlayer" where
  "turn_player g = player_at g (turn_key g)"

definition dealer_player :: "PokerGame \<Rightarrow> exn + PokerPlayer" where
  "dealer_player g = player_at g (py_index (players_order g) (dealer g))"

definition small_blind_player :: "PokerGame \<Rightarrow> exn + PokerPlayer" where
  "small_blind_player g = player_at g (py_index (players_order g) (small_blind g))"

definition big_blind_player :: "PokerGame \<Rightarrow> exn + PokerPlayer" where
  "big_blind_player g = player_at g (py_index (players_order g) (big_blind g))"

text \<open>
  \<^verbatim>\<open>_get_fold_winner\<close>: the loop again runs over the keys and calls
  \<^verbatim>\<open>get_status()\<close> on each, a method an integer does not have.
\<close>

definition key_get_status :: "nat \<Rightarrow> exn + status" where
  "key_get_status p = Inl AttributeError"

fun first_not_folded :: "nat list \<Rightarrow> exn + nat option" where
  "first_not_folded [] = Inr None"
| "first_not_folded (p # ps) =
     (case key_get_status p of
        Inl e \<Rightarrow> Inl e
      | Inr s \<Rightarrow> if s \<noteq> STATUS_FOLDED then Inr (Some p) else first_not_folded ps)"

definition get_fold_winner :: "PokerGame \<Rightarrow> exn + nat option" where
  "get_fold_winner g =
     (case num_folded g of
        Inl e \<Rightarrow> Inl e
      | Inr n \<Rightarrow>
          if int n < int (length (players_order g)) - 1 then Inr None
          else first_not_folded (map fst (players g)))"

text \<open>
  \<^verbatim>\<open>_print_game_screen\<close> evaluates the arguments of the board in the order written;
  each seat property and the currency symbol can raise.
\<close>

definition print_game_screen :: "PokerGame \<Rightarrow> exn + msg" where
  "print_game_screen g =
     (let moves = (if bet g = 0 then [MOVE_CHECK, MOVE_RAISE]
                   else [MOVE_FOLD, MOVE_CALL, MOVE_RAISE])
      in case dealer_player g of Inl e \<Rightarrow> Inl e | Inr d \<Rightarrow>
         (case small_blind_player g of Inl e \<Rightarrow> Inl e | Inr s \<Rightarrow>
         (case big_blind_player g of Inl e \<Rightarrow> Inl e | Inr b \<Rightarrow>
         (case py_getitem (currency g) ''symbol'' of Inl e \<Rightarrow> Inl e | Inr symbol \<Rightarrow>
         (case turn_player g of Inl e \<Rightarrow> Inl e | Inr t \<Rightarrow>
            Inr (GameBoard (name d) (name s) (name b) (name t) (bet g) moves))))))"

subsection \<open>Session lifecycle\<close>

definition join :: "ctx \<Rightarrow> PokerGame \<Rightarrow> result" where
  "join c g =
     (if ongoing_game g then (None, [CannotJoin], g)
      else let player = author c in
        if map_of (players g) (user_id player) \<noteq> None
        then (None, [AlreadyIn (display_name player)], g)
        else let g' = g\<lparr>players := players g @ [(user_id player, PokerPlayer_init player (buy_in g))],
                        players_order := players_order g @ [user_id player]\<rparr>
             in (None, [Joined (display_name player)], g'))"

text \<open>
  \<^verbatim>\<open>start\<close>: the branch for fewer than three seats sends its message and goes on (it
  has no \<^verbatim>\<open>return\<close>).
\<close>

definition start :: "ctx \<Rightarrow> PokerGame \<Rightarrow> result" where
  "start c g =
     (if ongoing_round g then (None, [CannotStart], g)
      else if user_id (author c) \<noteq> user_id (host g) then (None, [HostMustStart], g)
      else
        let ms = (if length (players_order g) < 3 then [NeedThreePlayers] else []);
            g1 = g\<lparr>ongoing_game := True, ongoing_round := True, time_started := now c\<rparr>
        in case py_index (players_order g1) (small_blind g1) of
             Inl e \<Rightarrow> (Some e, ms, g1)
           | Inr ks \<Rightarrow>
          (case py_getitem (players g1) ks of
             Inl e \<Rightarrow> (Some e, ms, g1)
           | Inr sb \<Rightarrow>
          (let g2 = g1\<lparr>players := update_player ks (move_in (dec_div (blind g1) 2)) (players g1)\<rparr>
           in case py_index (players_order g2) (big_blind g2) of
                Inl e \<Rightarrow> (Some e, ms, g2)
              | Inr kb \<Rightarrow>
             (case py_getitem (players g2) kb of
                Inl e \<Rightarrow> (Some e, ms, g2)
              | Inr bb \<Rightarrow>
             (let g3 = g2\<lparr>players := update_player kb (move_in (blind g2)) (players g2)\<rparr>;
                  g4 = g3\<lparr>bet := blind g3\<rparr>
              in if length (players_order g4) = 0 then (Some ZeroDivisionError, ms, g4)
                 else
                   let g5 = g4\<lparr>turn := (big_blind g4 + 1) mod int (length (players_order g4))\<rparr>
                   in case print_game_screen g5 of
                        Inl e \<Rightarrow> (Some e, ms, g5)
                      | Inr m \<Rightarrow> (None, ms @ [m], g5))))))"

subsection \<open>The betting state machine\<close>

text \<open>
  The loop of \<^verbatim>\<open>_advance_turn\<close> passes over folded and all-in seats. Nothing bounds
  it: with every seat folded or all-in it never ends, so it is a partial function and
  \<open>None\<close> stands for not returning.
\<close>

partial_function (option) skip_inactive :: "msg list \<Rightarrow> PokerGame \<Rightarrow> result option" where
  "skip_inactive ms g =
     (case turn_player g of
        Inl e \<Rightarrow> Some (Some e, ms, g)
      | Inr tp \<Rightarrow>
          if status tp = STATUS_FOLDED \<or> status tp = STATUS_ALL_IN
          then skip_inactive (ms @ [IsStatus (name tp) (status tp)]) (g\<lparr>turn := turn g + 1\<rparr>)
          else Some (None, ms, g))"

declare skip_inactive.simps [code]

text \<open>
  \<^verbatim>\<open>_advance_turn\<close>, entered with the messages \<open>ms\<close> already sent. The winner that
  \<^verbatim>\<open>_get_fold_winner\<close> returns is a key of the dict, so reading its \<^verbatim>\<open>name\<close> for the
  announcement raises \<^verbatim>\<open>AttributeError\<close>; the branch changes no field.
\<close>

definition advance_turn :: "msg list \<Rightarrow> PokerGame \<Rightarrow> result option" where
  "advance_turn ms g =
     (case get_fold_winner g of
        Inl e \<Rightarrow> Some (Some e, ms, g)
      | Inr (Some w) \<Rightarrow> Some (Some AttributeError, ms, g)
      | Inr None \<Rightarrow>
          (case skip_inactive ms (g\<lparr>turn := turn g + 1\<rparr>) of
             None \<Rightarrow> None
           | Some (Some e, ms', g') \<Rightarrow> Some (Some e, ms', g')
           | Some (None, ms', g') \<Rightarrow>
               (case print_game_screen g' of
                  Inl e \<Rightarrow> Some (Some e, ms', g')
                | Inr m \<Rightarrow> Some (None, ms' @ [m], g'))))"

text \<open>
  The text of a raise ends in the field \<^verbatim>\<open>{:2.f}\<close>, which is not a format
  specification (a precision needs digits): \<^verbatim>\<open>str.format\<close> raises \<^verbatim>\<open>ValueError\<close>
  whatever the values are.
\<close>

definition format_raised :: "string \<Rightarrow> rat \<Rightarrow> rat \<Rightarrow> rat \<Rightarrow> exn + msg" where
  "format_raised n b a t = Inl ValueError"

text \<open>Lines 313 and 314: the table bet rises, then the acting player moves the new bet in.\<close>

definition raise_bet :: "nat \<Rightarrow> rat \<Rightarrow> PokerGame \<Rightarrow> PokerGame" where
  "raise_bet k a g =
     (let g1 = g\<lparr>bet := dec_add (bet g) a\<rparr>
      in g1\<lparr>players := update_player k (move_in (bet g1)) (players g1)\<rparr>)"

text \<open>
  The branch on the move (lines 293 to 326), for the acting player \<open>tp\<close> stored under
  key \<open>k\<close>. A raise computes \<^verbatim>\<open>self.bet + amount\<close> for its text first, a
  \<^verbatim>\<open>TypeError\<close> when no amount was given.
\<close>

definition apply_move :: "move \<Rightarrow> rat option \<Rightarrow> nat \<Rightarrow> PokerPlayer \<Rightarrow> PokerGame \<Rightarrow> result" where
  "apply_move mv amt k tp g =
     (case mv of
        MOVE_FOLD \<Rightarrow>
          (None, [Folded (name tp)],
           g\<lparr>players := update_player k (\<lambda>p. p\<lparr>status := STATUS_FOLDED\<rparr>) (players g)\<rparr>)
      | MOVE_CHECK \<Rightarrow> (None, [Checked (name tp)], g)
      | MOVE_CALL \<Rightarrow>
          (None, [Called (name tp)],
           g\<lparr>players := update_player k (move_in (bet g)) (players g)\<rparr>)
      | MOVE_RAISE \<Rightarrow>
          (case amt of
             None \<Rightarrow> (Some TypeError, [], g)
           | Some a \<Rightarrow>
               (case format_raised (name tp) (bet g) a (dec_add (bet g) a) of
                  Inl e \<Rightarrow> (Some e, [], g)
                | Inr m \<Rightarrow> (None, [m], raise_bet k a g)))
      | MOVE_ALL_IN \<Rightarrow>
          (let all_in_amount = amount tp
           in (None, [WentAllIn (name tp) all_in_amount],
               g\<lparr>players :=
                    update_player k (\<lambda>p. (move_in all_in_amount p)\<lparr>status := STATUS_ALL_IN\<rparr>)
                      (players g)\<rparr>)))"

text \<open>
  \<^verbatim>\<open>try_move\<close> from line 264 on: the checks on the author and on the move, the move,
  then \<^verbatim>\<open>_advance_turn\<close>. The acting player is read once: no check changes the
  turn, the seating or the dict.
\<close>

definition try_move_body :: "ctx \<Rightarrow> move \<Rightarrow> rat option \<Rightarrow> PokerGame \<Rightarrow> result option" where
  "try_move_body c move0 amt g =
     (if user_id (author c) \<notin> set (players_order g) then Some (None, [NotParticipant], g)
      else case turn_key g of
        Inl e \<Rightarrow> Some (Some e, [], g)
      | Inr k \<Rightarrow>
     (case py_getitem (players g) k of
        Inl e \<Rightarrow> Some (Some e, [], g)
      | Inr tp \<Rightarrow>
          if user_id (author c) \<noteq> discord_id tp then Some (None, [NotYourTurn], g)
          else if bet g = 0 \<and> move0 = MOVE_FOLD then Some (None, [WhyFold], g)
          else
            let mv = (if bet g = 0 \<and> move0 = MOVE_CALL then MOVE_CHECK else move0)
            in if bet g > 0 \<and> mv = MOVE_CHECK then Some (None, [CantCheck (bet g)], g)
               else if bet g \<ge> dec_add (amount tp) (amount_in tp)
                       \<and> (mv = MOVE_CALL \<or> mv = MOVE_RAISE)
               then Some (None, [MustGoAllIn], g)
               else
                 (case apply_move mv amt k tp g of
                    (Some e, ms, g') \<Rightarrow> Some (Some e, ms, g')
                  | (None, ms, g') \<Rightarrow> advance_turn ms g')))"

text \<open>
  The first statement of \<^verbatim>\<open>try_move\<close> reads \<^verbatim>\<open>self.game\<close>. That is an attribute of
  the cog \<^verbatim>\<open>Poker\<close>; \<^verbatim>\<open>PokerGame\<close> and its constructor define none of that name, so
  the read raises \<^verbatim>\<open>AttributeError\<close>. The value, were there one, would say whether
  it is \<^verbatim>\<open>None\<close>.
\<close>

definition self_game :: "PokerGame \<Rightarrow> exn + bool" where
  "self_game g = Inl AttributeError"

definition try_move :: "ctx \<Rightarrow> move \<Rightarrow> rat option \<Rightarrow> PokerGame \<Rightarrow> result option" where
  "try_move c move0 amt g =
     (case self_game g of
        Inl e \<Rightarrow> Some (Some e, [], g)
      | Inr is_none \<Rightarrow>
          if is_none then Some (None, [NoGame], g) else try_move_body c move0 amt g)"

subsection \<open>Sequences of commands\<close>

text \<open>
  The chat layer runs one command after the other on the same game object; a command
  that raised has left its assignments in place and the next one runs on them.
\<close>

datatype command = Join ctx | Start ctx | TryMove ctx move "rat option"

fun step :: "command \<Rightarrow> PokerGame \<Rightarrow> result option" where
  "step (Join c) g = Some (join c g)"
| "step (Start c) g = Some (start c g)"
| "step (TryMove c mv amt) g = try_move c mv amt g"

fun run :: "command list \<Rightarrow> PokerGame \<Rightarrow> PokerGame option" where
  "run [] g = Some g"
| "run (x # xs) g =
     (case step x g of None \<Rightarrow> None | Some r \<Rightarrow> run xs (snd (snd r)))"

fun in_round :: "command \<Rightarrow> bool" where
  "in_round (Join c) = False"
| "in_round (Start c) = True"
| "in_round (TryMove c mv amt) = True"

definition by_user :: "nat \<Rightarrow> command \<Rightarrow> bool" where
  "by_user u x = (case x of Join c \<Rightarrow> user_id (author c) = u | _ \<Rightarrow> False)"

text \<open>The chips of the table: every player's stack and committed amount, and the pot.\<close>

definition chips :: "PokerGame \<Rightarrow> rat" where
  "chips g = sum_list (map (\<lambda>kp. amount (snd kp) + amount_in (snd kp)) (players g)) + pot g"

text \<open>What no command may change: who has a player record, the seating, the host.\<close>

definition same_seats :: "PokerGame \<Rightarrow> PokerGame \<Rightarrow> bool" where
  "same_seats g g' =
     (map fst (players g') = map fst (players g) \<and> players_order g' = players_order g
      \<and> host g' = host g)"

text \<open>
  Amounts on which the arithmetic of a round is exact: at most four decimal places and
  below \<open>10\<^sup>2\<^sup>2\<close> in absolute value. A table is modest when its blind unit, its bet and
  every stack and committed amount are such.
\<close>

definition few_digits :: "rat \<Rightarrow> bool" where
  "few_digits x = (of_int \<lfloor>x * 10000\<rfloor> = x * 10000 \<and> \<bar>x\<bar> < 10 ^ 22)"

definition modest :: "PokerGame \<Rightarrow> bool" where
  "modest g =
     (few_digits (blind g) \<and> few_digits (bet g)
      \<and> list_all (\<lambda>kp. few_digits (amount (snd kp)) \<and> few_digits (amount_in (snd kp)))
            (players g))"

text \<open>Amounts of at most five decimal places below a bound \<open>B\<close>.\<close>

definition up_to :: "rat \<Rightarrow> rat \<Rightarrow> bool" where
  "up_to B x = (of_int \<lfloor>x * 100000\<rfloor> = x * 100000 \<and> \<bar>x\<bar> < B)"

definition stacks_up_to :: "rat \<Rightarrow> (nat \<times> PokerPlayer) list \<Rightarrow> bool" where
  "stacks_up_to B ps =
     list_all (\<lambda>kp. up_to B (amount (snd kp)) \<and> up_to B (amount_in (snd kp))) ps"

subsection \<open>Example tables\<close>

definition alice :: user where
  "alice = \<lparr>user_id = 1, display_name = ''alice''\<rparr>"

definition bob :: user where
  "bob = \<lparr>user_id = 2, display_name = ''bob''\<rparr>"

definition carol :: user where
  "carol = \<lparr>user_id = 3, display_name = ''carol''\<rparr>"

definition dave :: user where
  "dave = \<lparr>user_id = 4, display_name = ''dave''\<rparr>"

definition sent_by :: "user \<Rightarrow> ctx" where
  "sent_by u = \<lparr>author = u, now = 5\<rparr>"

definition seat :: "user \<Rightarrow> rat \<Rightarrow> rat \<Rightarrow> status \<Rightarrow> nat \<times> PokerPlayer" where
  "seat u a i s = (user_id u, \<lparr>user_object = u, amount = a, amount_in = i, status = s\<rparr>)"

text \<open>A session opened by alice with a buy-in of 200: the blind unit is 2.\<close>

definition fresh_table :: PokerGame where
  "fresh_table = PokerGame_init [(''symbol'', ''$'')] alice 3 200 0"

text \<open>After bob and then alice herself have joined: alice holds seats 0 and 2.\<close>

definition seated_table :: PokerGame where
  "seated_table =
     fresh_table\<lparr>players := [seat bob 200 0 STATUS_IN, seat alice 200 0 STATUS_IN],
                 players_order := [1, 2, 1]\<rparr>"

text \<open>
  After alice has started the round: bob posted the small blind, alice the big blind,
  and alice, in seat 0, is the first to act with her 2 already committed.
\<close>

definition blinds_table :: PokerGame where
  "blinds_table =
     seated_table\<lparr>ongoing_game := True, ongoing_round := True, time_started := 5,
                  players := [seat bob 199 1 STATUS_IN, seat alice 198 2 STATUS_IN],
                  bet := 2, turn := 0\<rparr>"

text \<open>The same table once the bet has reached alice's whole 200.\<close>

definition high_bet_table :: PokerGame where
  "high_bet_table = blinds_table\<lparr>bet := 200\<rparr>"

text \<open>The same table with nothing to call.\<close>

definition no_bet_table :: PokerGame where
  "no_bet_table = blinds_table\<lparr>bet := 0\<rparr>"

text \<open>
  Four seats with a player each; alice and bob have folded, dave has called the blind
  and carol, the big blind, is to act.
\<close>

definition last_fold_table :: PokerGame where
  "last_fold_table =
     fresh_table\<lparr>ongoing_game := True, ongoing_round := True, time_started := 5,
                 players := [seat alice 200 0 STATUS_FOLDED, seat bob 199 1 STATUS_FOLDED,
                             seat carol 198 2 STATUS_IN, seat dave 198 2 STATUS_IN],
                 players_order := [1, 2, 3, 4], bet := 2, turn := 2\<rparr>"

definition three_folded_table :: PokerGame where
  "three_folded_table =
     last_fold_table\<lparr>players := [seat alice 200 0 STATUS_FOLDED, seat bob 199 1 STATUS_FOLDED,
                                 seat carol 198 2 STATUS_FOLDED, seat dave 198 2 STATUS_IN]\<rparr>"

text \<open>Boards with the flop, the turn and the river dealt.\<close>

definition flop_table :: PokerGame where
  "flop_table =
     fresh_table\<lparr>in_play := [Some (''H'', ''2''), Some (''S'', ''K''), Some (''D'', ''10''),
                             None, None]\<rparr>"

definition turn_table :: PokerGame where
  "turn_table =
     fresh_table\<lparr>in_play := [Some (''H'', ''2''), Some (''S'', ''K''), Some (''D'', ''10''),
                             Some (''C'', ''A''), None]\<rparr>"

definition river_table :: PokerGame where
  "river_table =
     fresh_table\<lparr>in_play := [Some (''H'', ''2''), Some (''S'', ''K''), Some (''D'', ''10''),
                             Some (''C'', ''A''), Some (''C'', ''7'')]\<rparr>"

text \<open>
  A session with a buy-in of \<open>10\<^sup>2\<^sup>9 + 1\<close>, an integer of 30 digits: fresh, after bob
  and alice have joined, and after alice has started the round.
\<close>

definition large_fresh_table :: PokerGame where
  "large_fresh_table =
     PokerGame_init [(''symbol'', ''$'')] alice 3 100000000000000000000000000001 0"

definition large_seated_table :: PokerGame where
  "large_seated_table =
     large_fresh_table\<lparr>players := [seat bob 100000000000000000000000000001 0 STATUS_IN,
                                   seat alice 100000000000000000000000000001 0 STATUS_IN],
                       players_order := [1, 2, 1]\<rparr>"

definition large_blinds_table :: PokerGame where
  "large_blinds_table =
     large_seated_table\<lparr>ongoing_game := True, ongoing_round := True, time_started := 5,
        players := [seat bob 99500000000000000000000000000 500000000000000000000000000
                      STATUS_IN,
                    seat alice 99000000000000000000000000000 1000000000000000000000000000
                      STATUS_IN],
        bet := 1000000000000000000000000000, turn := 0\<rparr>"

section \<open>Auxiliary facts\<close>

subsection \<open>Rounding to 28 digits\<close>

lemma digits_above_le: "1 \<le> x \<Longrightarrow> power_int 10 (digits_above x) \<le> x"
proof (induction x rule: digits_above.induct)
  case (1 x)
  show ?case
  proof (cases "x < 10")
    case True
    with 1 show ?thesis by (subst digits_above.simps) simp
  next
    case False
    then have "1 \<le> x / 10" by simp
    with 1 False have "power_int 10 (digits_above (x / 10)) \<le> x / 10" by simp
    then have "power_int 10 (digits_above (x / 10) + 1) \<le> x"
      by (simp add: power_int_add)
    with False show ?thesis by (subst digits_above.simps) simp
  qed
qed

lemma digits_below_le: "0 < x \<Longrightarrow> x < 1 \<Longrightarrow> power_int 10 (digits_below x) \<le> x"
proof (induction x rule: digits_below.induct)
  case (1 x)
  show ?case
  proof (cases "x * 10 < 1")
    case True
    with 1 have "power_int 10 (digits_below (x * 10)) \<le> x * 10" by simp
    then have "power_int 10 (digits_below (x * 10) - 1) \<le> x"
      by (simp add: power_int_diff)
    with 1 show ?thesis by (subst digits_below.simps) simp
  next
    case False
    with 1 have "digits_below (x * 10) = 0" by (subst digits_below.simps) simp
    with 1 False show ?thesis by (subst digits_below.simps) (simp add: power_int_diff)
  qed
qed

lemma adjusted_le: "x \<noteq> 0 \<Longrightarrow> power_int 10 (adjusted x) \<le> \<bar>x\<bar>"
  by (simp add: adjusted_def digits_above_le digits_below_le)


lemma digits_above_gt: "0 \<le> x \<Longrightarrow> x < power_int 10 (digits_above x + 1)"
proof (induction x rule: digits_above.induct)
  case (1 x)
  show ?case
  proof (cases "x < 10")
    case True
    then show ?thesis by (subst digits_above.simps) simp
  next
    case False
    with 1 have "x / 10 < power_int 10 (digits_above (x / 10) + 1)" by simp
    then have "x < power_int 10 (digits_above (x / 10) + 1 + 1)"
      by (simp add: power_int_add)
    with False show ?thesis by (subst digits_above.simps) simp
  qed
qed

lemma digits_below_gt: "0 < x \<Longrightarrow> x < 1 \<Longrightarrow> x < power_int 10 (digits_below x + 1)"
proof (induction x rule: digits_below.induct)
  case (1 x)
  show ?case
  proof (cases "x * 10 < 1")
    case True
    with 1 have "x * 10 < power_int 10 (digits_below (x * 10) + 1)" by simp
    then have "x < power_int 10 (digits_below (x * 10) - 1 + 1)"
      by (simp add: power_int_add)
    with 1 show ?thesis by (subst digits_below.simps) simp
  next
    case False
    with 1 have "digits_below (x * 10) = 0" by (subst digits_below.simps) simp
    with 1 False show ?thesis by (subst digits_below.simps) simp
  qed
qed

lemma adjusted_gt: "x \<noteq> 0 \<Longrightarrow> \<bar>x\<bar> < power_int 10 (adjusted x + 1)"
  by (simp add: adjusted_def digits_above_gt digits_below_gt)

lemma pow10_less_cancel:
  assumes "power_int (10::rat) a < power_int 10 b"
  shows "a < b"
proof (rule ccontr)
  assume "\<not> a < b"
  then have "b \<le> a" by simp
  then have "power_int (10::rat) b \<le> power_int 10 a"
    by (rule power_int_increasing) simp
  with assms show False by simp
qed

lemma pow10_pos: "0 < power_int (10::rat) e"
  by simp

lemma adjusted_eq:
  assumes "power_int 10 e \<le> \<bar>x\<bar>" and "\<bar>x\<bar> < power_int 10 (e + 1)"
  shows "adjusted x = e"
proof -
  have nz: "x \<noteq> 0"
  proof
    assume "x = 0"
    with assms(1) have "power_int (10::rat) e \<le> 0" by simp
    with pow10_pos [of e] show False by linarith
  qed
  have "power_int (10::rat) e < power_int 10 (adjusted x + 1)"
    using assms(1) adjusted_gt [OF nz] by linarith
  then have a: "e < adjusted x + 1" by (rule pow10_less_cancel)
  have "power_int (10::rat) (adjusted x) < power_int 10 (e + 1)"
    using assms(2) adjusted_le [OF nz] by linarith
  then have b: "adjusted x < e + 1" by (rule pow10_less_cancel)
  from a b show ?thesis by simp
qed

lemma round_half_even_of_int: "round_half_even (of_int n) = n"
  by (simp add: round_half_even_def)

lemma dec_round_at:
  assumes "power_int 10 e \<le> \<bar>x\<bar>" and "\<bar>x\<bar> < power_int 10 (e + 1)"
  shows "dec_round x =
     of_int (round_half_even (x / power_int 10 (e - 27))) * power_int 10 (e - 27)"
proof -
  have nz: "x \<noteq> 0"
  proof
    assume "x = 0"
    with assms(1) have "power_int (10::rat) e \<le> 0" by simp
    with pow10_pos [of e] show False by linarith
  qed
  with adjusted_eq [OF assms] show ?thesis by (simp add: dec_round_def Let_def)
qed

lemma dec_round_exact:
  assumes "of_int n = x * 10 ^ d" and "\<bar>n\<bar> < 10 ^ 28"
  shows "dec_round x = x"
proof (cases "x = 0")
  case True
  then show ?thesis by (simp add: dec_round_def Let_def)
next
  case False
  let ?e = "adjusted x"
  have "\<bar>x\<bar> * 10 ^ d = \<bar>of_int n :: rat\<bar>" using assms(1) by (simp add: abs_mult)
  also have "\<dots> = of_int \<bar>n\<bar>" by simp
  also have "\<dots> < of_int (10 ^ 28)" using assms(2) by (simp only: of_int_less_iff)
  finally have "\<bar>x\<bar> * 10 ^ d < 10 ^ 28" by simp
  then have "\<bar>x\<bar> < 10 ^ 28 / 10 ^ d" by (simp add: pos_less_divide_eq)
  also have "\<dots> = power_int 10 (28 - int d)" by (simp add: power_int_diff)
  finally have "power_int (10::rat) ?e < power_int 10 (28 - int d)"
    using adjusted_le [OF False] by linarith
  then have "?e < 28 - int d" by (rule pow10_less_cancel)
  then have "0 \<le> 27 - ?e - int d" by simp
  then obtain m :: nat where "27 - ?e - int d = int m"
    using nonneg_int_cases by blast
  then have m: "27 - ?e = int d + int m" by simp
  have "power_int (10::rat) (int d + int m) = inverse (power_int 10 (?e - 27))"
    using power_int_minus [of "10::rat" "?e - 27"] m by simp
  then have "x / power_int 10 (?e - 27) = x * power_int 10 (int d + int m)"
    by (simp add: divide_inverse)
  also have "\<dots> = x * 10 ^ d * 10 ^ m"
    by (simp add: power_int_add)
  also have "\<dots> = of_int (n * 10 ^ m)" using assms(1) by simp
  finally have q: "x / power_int 10 (?e - 27) = of_int (n * 10 ^ m)" .
  have "dec_round x = of_int (round_half_even (x / power_int 10 (?e - 27))) * power_int 10 (?e - 27)"
    using False by (simp add: dec_round_def Let_def)
  also have "\<dots> = x / power_int 10 (?e - 27) * power_int 10 (?e - 27)"
    by (simp only: q round_half_even_of_int)
  also have "\<dots> = x" by simp
  finally show ?thesis .
qed

lemma dec_round_numeral: "numeral w < (10::int) ^ 28 \<Longrightarrow> dec_round (numeral w) = numeral w"
  using dec_round_exact [of "numeral w" "numeral w" 0] by simp

lemma dec_round_0: "dec_round 0 = 0"
  by (simp add: dec_round_def Let_def)

lemma dec_round_1: "dec_round 1 = 1"
  using dec_round_exact [of 1 1 0] by simp

lemma round_half_even_down:
  assumes "of_int n \<le> y" and "y - of_int n < 1 / 2"
  shows "round_half_even y = n"
proof -
  from assms have "\<lfloor>y\<rfloor> = n" by (intro floor_unique) simp_all
  with assms(2) show ?thesis by (simp add: round_half_even_def)
qed

lemma round_blind_unit:
  "dec_round (100000000000000000000000000001 / 100) = 1000000000000000000000000000"
proof -
  have "round_half_even (100000000000000000000000000001 / 100) = 1000000000000000000000000000"
    by (rule round_half_even_down) simp_all
  with dec_round_at [of 27 "100000000000000000000000000001 / 100"] show ?thesis by simp
qed

lemma round_small_blind_stack:
  "dec_round 99500000000000000000000000001 = 99500000000000000000000000000"
proof -
  have "round_half_even (99500000000000000000000000001 / 10) = 9950000000000000000000000000"
    by (rule round_half_even_down) simp_all
  with dec_round_at [of 28 99500000000000000000000000001] show ?thesis by simp
qed

lemma round_big_blind_stack:
  "dec_round 99000000000000000000000000001 = 99000000000000000000000000000"
proof -
  have "round_half_even (99000000000000000000000000001 / 10) = 9900000000000000000000000000"
    by (rule round_half_even_down) simp_all
  with dec_round_at [of 28 99000000000000000000000000001] show ?thesis by simp
qed

lemmas dec_ops = dec_add_def dec_sub_def dec_div_def dec_round_numeral dec_round_0 dec_round_1

subsection \<open>What the exceptions leave of the turn logic\<close>

lemmas tables = alice_def bob_def carol_def dave_def sent_by_def seat_def fresh_table_def
  seated_table_def blinds_table_def high_bet_table_def no_bet_table_def last_fold_table_def
  three_folded_table_def PokerGame_init_def PokerPlayer_init_def dec_ops

lemma count_folded_eq: "count_folded ks = (if ks = [] then Inr 0 else Inl TypeError)"
  by (cases ks) (simp_all add: key_subscript_def)

lemma get_fold_winner_eq:
  "get_fold_winner g = (if players g = [] then Inr None else Inl TypeError)"
  by (simp add: get_fold_winner_def num_folded_def count_folded_eq)

lemma py_index_mod:
  assumes "xs \<noteq> []"
  shows "py_index xs (i mod int (length xs)) = Inr (xs ! nat (i mod int (length xs)))"
proof -
  have "0 < int (length xs)" using assms by simp
  then have "0 \<le> i mod int (length xs)" "i mod int (length xs) < int (length xs)"
    by simp_all
  then show ?thesis by (simp add: py_index_def Let_def)
qed

lemma turn_player_no_players:
  "players g = [] \<Longrightarrow>
   turn_player g = Inl (if players_order g = [] then ZeroDivisionError else KeyError)"
  by (simp add: turn_player_def turn_key_def player_at_def py_index_mod py_getitem_def)

lemma advance_turn_eq:
  "advance_turn ms g =
     Some (if players g = []
           then (Some (if players_order g = [] then ZeroDivisionError else KeyError), ms,
                 g\<lparr>turn := turn g + 1\<rparr>)
           else (Some TypeError, ms, g))"
proof (cases "players g = []")
  case True
  then have "turn_player (g\<lparr>turn := turn g + 1\<rparr>) =
      Inl (if players_order g = [] then ZeroDivisionError else KeyError)"
    using turn_player_no_players [of "g\<lparr>turn := turn g + 1\<rparr>"] by simp
  then have "skip_inactive ms (g\<lparr>turn := turn g + 1\<rparr>) =
      Some (Some (if players_order g = [] then ZeroDivisionError else KeyError), ms,
            g\<lparr>turn := turn g + 1\<rparr>)"
    by (subst skip_inactive.simps) simp
  with True show ?thesis
    by (simp add: advance_turn_def get_fold_winner_eq)
next
  case False
  then show ?thesis
    by (simp add: advance_turn_def get_fold_winner_eq)
qed

subsection \<open>What a command keeps\<close>

lemma keys_update_player: "map fst (update_player k f ps) = map fst ps"
  by (induction ps) simp_all

lemma update_player_Nil: "(update_player k f ps = []) = (ps = [])"
  by (cases ps) simp_all

lemma apply_move_frame:
  assumes "apply_move mv amt k tp g = (e, ms, g')"
  shows "same_seats g g' \<and> pot g' = pot g \<and> (players g' = []) = (players g = [])"
  using assms
  by (cases mv)
    (auto simp: apply_move_def Let_def same_seats_def keys_update_player update_player_Nil
       format_raised_def split: option.splits)

lemma raise_bet_frame:
  "same_seats g (raise_bet k a g) \<and> pot (raise_bet k a g) = pot g"
  by (simp add: raise_bet_def Let_def same_seats_def keys_update_player)

lemma advance_turn_frame:
  assumes "advance_turn ms g = Some (e, ms', g')"
  shows "same_seats g g' \<and> pot g' = pot g \<and> chips g' = chips g \<and> players g' = players g
         \<and> bet g' = bet g \<and> ms' = ms \<and> ongoing_round g' = ongoing_round g"
  using assms by (auto simp: advance_turn_eq same_seats_def chips_def split: if_splits)

lemma try_move_body_returns: "\<exists>r. try_move_body c mv amt g = Some r"
  by (auto simp: try_move_body_def advance_turn_eq Let_def split: sum.splits prod.splits option.splits)

lemma same_seats_refl: "same_seats g g"
  by (simp add: same_seats_def)

lemma same_seats_trans: "same_seats g g' \<Longrightarrow> same_seats g' g'' \<Longrightarrow> same_seats g g''"
  by (simp add: same_seats_def)

lemma try_move_body_frame:
  assumes "try_move_body c mv amt g = Some (e, ms, g')"
  shows "same_seats g g' \<and> pot g' = pot g"
proof -
  let ?P = "\<lambda>g'. same_seats g g' \<and> pot g' = pot g"
  have moved: "?P g2"
    if "apply_move m2 amt k tp g = (e1, ms1, g1)"
      and "e1 = None \<Longrightarrow> advance_turn ms1 g1 = Some (e, ms, g2)"
      and "e1 \<noteq> None \<Longrightarrow> g2 = g1" for m2 k tp e1 ms1 g1 g2
  proof (cases e1)
    case None
    with that apply_move_frame [OF that(1)] advance_turn_frame [of ms1 g1 e ms g2]
    show ?thesis by (auto intro: same_seats_trans)
  next
    case (Some x)
    with that apply_move_frame [OF that(1)] show ?thesis by auto
  qed
  from assms show ?thesis
    unfolding try_move_body_def Let_def
    by (auto split: if_splits sum.splits prod.splits option.splits
          simp: same_seats_refl dest: moved)
qed

lemma try_move_eq: "try_move c mv amt g = Some (Some AttributeError, [], g)"
  by (simp add: try_move_def self_game_def)

lemma start_frame:
  assumes "start c g = (e, ms, g')"
  shows "same_seats g g' \<and> pot g' = pot g"
  using assms unfolding start_def Let_def
  by (auto simp: same_seats_def keys_update_player split: if_splits sum.splits)

lemma start_progress:
  assumes "start c g = (e, ms, g')"
  shows "g' = g \<or> ongoing_round g'"
  using assms unfolding start_def Let_def
  by (auto split: if_splits sum.splits)

lemma join_frame:
  assumes "join c g = (e, ms, g')"
  shows "pot g' = pot g \<and> host g' = host g \<and> set (players_order g) \<subseteq> set (players_order g')"
  using assms by (auto simp: join_def Let_def split: if_splits)

lemma join_no_record:
  assumes "join c g = (e, ms, g')" and "map_of (players g) u = None"
    and "user_id (author c) \<noteq> u"
  shows "map_of (players g') u = None"
  using assms by (auto simp: join_def Let_def map_of_eq_None_iff split: if_splits)

lemma same_seats_no_record:
  "same_seats g g' \<Longrightarrow> map_of (players g) u = None \<Longrightarrow> map_of (players g') u = None"
  by (metis same_seats_def map_of_eq_None_iff set_map)

subsection \<open>Where the arithmetic of a round is exact\<close>

lemma up_toI: "x * 100000 = of_int n \<Longrightarrow> \<bar>x\<bar> < B \<Longrightarrow> up_to B x"
  by (simp add: up_to_def)

lemma up_toD: "up_to B x \<Longrightarrow> (\<exists>n. x * 100000 = of_int n) \<and> \<bar>x\<bar> < B"
  by (metis up_to_def)

lemma up_to_exact:
  assumes "up_to B x" and "B \<le> 10 ^ 23"
  shows "dec_round x = x"
proof -
  from up_toD [OF assms(1)] obtain n where n: "x * 100000 = of_int n" and b: "\<bar>x\<bar> < B"
    by blast
  have "(of_int \<bar>n\<bar> :: rat) = \<bar>of_int n\<bar>" by simp
  also have "\<dots> = \<bar>x\<bar> * 100000" using n by (simp add: abs_mult flip: n)
  also have "\<dots> < 10 ^ 23 * 100000" using b assms(2) by simp
  finally have "(of_int \<bar>n\<bar> :: rat) < of_int (10 ^ 28)" by simp
  then have "\<bar>n\<bar> < 10 ^ 28" by (simp only: of_int_less_iff)
  moreover have "of_int n = x * 10 ^ 5" using n by simp
  ultimately show ?thesis by (rule dec_round_exact [rotated])
qed

lemma up_to_add:
  assumes "up_to A x" and "up_to B y"
  shows "up_to (A + B) (x + y)"
proof -
  from up_toD [OF assms(1)] obtain n where n: "x * 100000 = of_int n" and a: "\<bar>x\<bar> < A"
    by blast
  from up_toD [OF assms(2)] obtain m where m: "y * 100000 = of_int m" and b: "\<bar>y\<bar> < B"
    by blast
  have "(x + y) * 100000 = of_int (n + m)" using n m by (simp add: algebra_simps)
  moreover have "\<bar>x + y\<bar> < A + B" using a b by linarith
  ultimately show ?thesis by (rule up_toI)
qed

lemma up_to_diff:
  assumes "up_to A x" and "up_to B y"
  shows "up_to (A + B) (x - y)"
proof -
  from up_toD [OF assms(1)] obtain n where n: "x * 100000 = of_int n" and a: "\<bar>x\<bar> < A"
    by blast
  from up_toD [OF assms(2)] obtain m where m: "y * 100000 = of_int m" and b: "\<bar>y\<bar> < B"
    by blast
  have "(x - y) * 100000 = of_int (n - m)" using n m by (simp add: algebra_simps)
  moreover have "\<bar>x - y\<bar> < A + B" using a b by linarith
  ultimately show ?thesis by (rule up_toI)
qed

lemma up_to_mono: "up_to A x \<Longrightarrow> A \<le> B \<Longrightarrow> up_to B x"
  by (auto simp: up_to_def)

lemma few_digits_up_to:
  assumes "few_digits x"
  shows "up_to (10 ^ 22) x"
proof -
  from assms obtain n where n: "x * 10000 = of_int n" and b: "\<bar>x\<bar> < 10 ^ 22"
    by (auto simp: few_digits_def)
  have "x * 100000 = x * 10000 * 10" by simp
  also have "\<dots> = of_int (n * 10)" by (simp only: n of_int_mult of_int_numeral)
  finally show ?thesis using b by (rule up_toI)
qed

lemma half_up_to:
  assumes "few_digits x"
  shows "up_to (10 ^ 22) (x / 2)"
proof -
  from assms obtain n where n: "x * 10000 = of_int n" and b: "\<bar>x\<bar> < 10 ^ 22"
    by (auto simp: few_digits_def)
  have "x / 2 * 100000 = x * 10000 * 5" by simp
  also have "\<dots> = of_int (n * 5)" by (simp only: n of_int_mult of_int_numeral)
  finally have "x / 2 * 100000 = of_int (n * 5)" .
  moreover have "\<bar>x / 2\<bar> < 10 ^ 22" using b by simp
  ultimately show ?thesis by (rule up_toI)
qed

lemma move_in_up_to:
  assumes "up_to A a" and "up_to B (amount p)" and "up_to B (amount_in p)"
    and "A + B \<le> 10 ^ 23"
  shows "amount (move_in a p) = amount p - a \<and> amount_in (move_in a p) = amount_in p + a"
proof -
  have "up_to (B + A) (amount p - a)" using assms(2) assms(1) by (rule up_to_diff)
  then have 1: "dec_round (amount p - a) = amount p - a"
    using assms(4) by (intro up_to_exact) (simp_all add: add.commute)
  have "up_to (B + A) (amount_in p + a)" using assms(3) assms(1) by (rule up_to_add)
  then have 2: "dec_round (amount_in p + a) = amount_in p + a"
    using assms(4) by (intro up_to_exact) (simp_all add: add.commute)
  from 1 2 show ?thesis by (simp add: move_in_def dec_add_def dec_sub_def)
qed

lemma stakes_update_player:
  assumes "\<And>p. amount (f p) + amount_in (f p) = amount p + amount_in p"
  shows "sum_list (map (\<lambda>kp. amount (snd kp) + amount_in (snd kp)) (update_player k f ps)) =
         sum_list (map (\<lambda>kp. amount (snd kp) + amount_in (snd kp)) ps)"
  using assms by (induction ps) simp_all

lemma stakes_move_in:
  assumes "stacks_up_to B ps" and "up_to A a" and "A + B \<le> 10 ^ 23"
    and "\<And>p. amount (f p) = amount (move_in a p) \<and> amount_in (f p) = amount_in (move_in a p)"
  shows "sum_list (map (\<lambda>kp. amount (snd kp) + amount_in (snd kp)) (update_player k f ps)) =
           sum_list (map (\<lambda>kp. amount (snd kp) + amount_in (snd kp)) ps)
         \<and> stacks_up_to (A + B) (update_player k f ps)"
  using assms(1)
proof (induction ps)
  case Nil
  show ?case by (simp add: stacks_up_to_def)
next
  case (Cons kp ps)
  from assms(2) have pos: "0 < A" by (auto simp: up_to_def)
  from Cons.prems have head: "up_to B (amount (snd kp))" "up_to B (amount_in (snd kp))"
    and tail: "stacks_up_to B ps"
    by (simp_all add: stacks_up_to_def)
  have up: "up_to (A + B) x" if "up_to B x" for x
    using that pos by (intro up_to_mono [of B x "A + B"]) simp_all
  have tail': "stacks_up_to (A + B) ps"
    using tail up by (simp add: stacks_up_to_def list_all_iff)
  show ?case
  proof (cases "fst kp = k")
    case True
    from move_in_up_to [OF assms(2) head assms(3)] assms(4) [of "snd kp"]
    have eq: "amount (f (snd kp)) = amount (snd kp) - a"
      "amount_in (f (snd kp)) = amount_in (snd kp) + a"
      by simp_all
    have "up_to (A + B) (amount (snd kp) - a)"
      using up_to_diff [OF head(1) assms(2)] by (simp add: add.commute)
    moreover have "up_to (A + B) (amount_in (snd kp) + a)"
      using up_to_add [OF head(2) assms(2)] by (simp add: add.commute)
    ultimately show ?thesis using True eq tail' by (simp add: stacks_up_to_def)
  next
    case False
    with Cons.IH [OF tail] head up show ?thesis by (simp add: stacks_up_to_def)
  qed
qed

lemma modest_players: "modest g \<Longrightarrow> stacks_up_to (10 ^ 22) (players g)"
  unfolding modest_def stacks_up_to_def list_all_iff
  by (blast intro: few_digits_up_to)

lemma start_chips:
  assumes "modest g" and "start c g = (e, ms, g')"
  shows "chips g' = chips g"
proof -
  let ?h = "dec_div (blind g) 2"
  let ?stake = "\<lambda>kp::nat \<times> PokerPlayer. amount (snd kp) + amount_in (snd kp)"
  from assms(1) have fb: "few_digits (blind g)" by (simp add: modest_def)
  have h: "?h = blind g / 2"
    unfolding dec_div_def by (rule up_to_exact [OF half_up_to [OF fb]]) simp
  have hw: "up_to (10 ^ 22) ?h" unfolding h by (rule half_up_to [OF fb])
  have bw: "up_to (10 ^ 22) (blind g)" by (rule few_digits_up_to [OF fb])
  have s1: "sum_list (map ?stake (update_player k (move_in ?h) (players g))) =
              sum_list (map ?stake (players g))
            \<and> stacks_up_to (10 ^ 22 + 10 ^ 22) (update_player k (move_in ?h) (players g))"
    for k
    by (rule stakes_move_in [OF modest_players [OF assms(1)] hw]) simp_all
  have s2: "sum_list (map ?stake (update_player k' (move_in (blind g))
                (update_player k (move_in ?h) (players g)))) =
            sum_list (map ?stake (players g))" for k k'
    using stakes_move_in [OF conjunct2 [OF s1 [of k]] bw, of "move_in (blind g)" k']
      conjunct1 [OF s1 [of k]]
    by simp
  from assms(2) show ?thesis
    unfolding start_def Let_def
    by (auto simp: chips_def s1 s2 split: if_splits sum.splits)
qed

lemma apply_move_chips:
  assumes "modest g" and "py_getitem (players g) k = Inr tp"
    and "apply_move mv amt k tp g = (e, ms, g')"
  shows "chips g' = chips g"
proof -
  let ?stake = "\<lambda>kp::nat \<times> PokerPlayer. amount (snd kp) + amount_in (snd kp)"
  note ps = modest_players [OF assms(1)]
  from assms(1) have "few_digits (bet g)" by (simp add: modest_def)
  then have bw: "up_to (10 ^ 22) (bet g)" by (rule few_digits_up_to)
  from assms(2) have "(k, tp) \<in> set (players g)"
    by (auto simp: py_getitem_def split: option.splits dest: map_of_SomeD)
  with assms(1) have "few_digits (amount tp)"
    by (auto simp: modest_def list_all_iff)
  then have tw: "up_to (10 ^ 22) (amount tp)" by (rule few_digits_up_to)
  have call: "sum_list (map ?stake (update_player k (move_in (bet g)) (players g))) =
      sum_list (map ?stake (players g))"
    using stakes_move_in [OF ps bw, of "move_in (bet g)" k] by simp
  have all_in: "sum_list (map ?stake
        (update_player k (\<lambda>p. (move_in (amount tp) p)\<lparr>status := STATUS_ALL_IN\<rparr>) (players g))) =
      sum_list (map ?stake (players g))"
    using stakes_move_in
      [OF ps tw, of "\<lambda>p. (move_in (amount tp) p)\<lparr>status := STATUS_ALL_IN\<rparr>" k]
    by simp
  have fold: "sum_list (map ?stake
        (update_player k (\<lambda>p. p\<lparr>status := STATUS_FOLDED\<rparr>) (players g))) =
      sum_list (map ?stake (players g))"
    by (rule stakes_update_player) simp
  from assms(3) show ?thesis
    by (cases mv)
      (auto simp: apply_move_def Let_def chips_def call all_in fold format_raised_def
         split: option.splits)
qed

lemma try_move_body_chips:
  assumes "modest g" and "try_move_body c mv amt g = Some (e, ms, g')"
  shows "chips g' = chips g"
proof -
  have moved: "chips g2 = chips g"
    if "py_getitem (players g) k = Inr tp"
      and "apply_move m2 amt k tp g = (e1, ms1, g1)"
      and "e1 = None \<Longrightarrow> advance_turn ms1 g1 = Some (e, ms, g2)"
      and "e1 \<noteq> None \<Longrightarrow> g2 = g1" for m2 k tp e1 ms1 g1 g2
  proof (cases e1)
    case None
    with that apply_move_chips [OF assms(1) that(1) that(2)]
      advance_turn_frame [of ms1 g1 e ms g2]
    show ?thesis by auto
  next
    case (Some x)
    with that apply_move_chips [OF assms(1) that(1) that(2)] show ?thesis by auto
  qed
  from assms(2) show ?thesis
    unfolding try_move_body_def Let_def
    by (auto split: if_splits sum.splits prod.splits option.splits dest: moved)
qed

lemma raise_bet_chips:
  assumes "modest g" and "few_digits a"
  shows "chips (raise_bet k a g) = chips g"
proof -
  from assms(1) have "few_digits (bet g)" by (simp add: modest_def)
  with assms(2) have "up_to (10 ^ 22 + 10 ^ 22) (bet g + a)"
    by (intro up_to_add few_digits_up_to)
  then have w: "up_to (10 ^ 22 + 10 ^ 22) (dec_add (bet g) a)"
    unfolding dec_add_def by (subst up_to_exact [of "10 ^ 22 + 10 ^ 22"]) simp_all
  from stakes_move_in [OF modest_players [OF assms(1)] w, of "move_in (dec_add (bet g) a)" k]
  show ?thesis by (simp add: raise_bet_def Let_def chips_def)
qed

lemma move_in_stake:
  assumes "few_digits a" and "few_digits (amount p)" and "few_digits (amount_in p)"
  shows "amount (move_in a p) + amount_in (move_in a p) = amount p + amount_in p"
  using move_in_up_to [OF few_digits_up_to [OF assms(1)] few_digits_up_to [OF assms(2)]
      few_digits_up_to [OF assms(3)]]
  by simp

subsection \<open>Sequences of commands\<close>

lemma step_returns: "\<exists>r. step x g = Some r"
  by (cases x) (simp_all add: try_move_eq del: split_paired_Ex)

lemma step_pot: "step x g = Some (e, ms, g') \<Longrightarrow> pot g' = pot g"
  by (cases x) (auto simp: try_move_eq dest: join_frame start_frame)

lemma step_chips:
  assumes "in_round x" and "modest g \<or> ongoing_round g" and "step x g = Some (e, ms, g')"
  shows "chips g' = chips g \<and> (modest g' \<or> ongoing_round g')"
proof (cases x)
  case (Join c)
  with assms(1) show ?thesis by simp
next
  case (Start c)
  show ?thesis
  proof (cases "ongoing_round g")
    case True
    with Start assms(3) show ?thesis by (simp add: start_def)
  next
    case False
    with assms(2) have m: "modest g" by simp
    from Start assms(3) have s: "start c g = (e, ms, g')" by simp
    from start_chips [OF m s] start_progress [OF s] m show ?thesis by auto
  qed
next
  case (TryMove c mv amt)
  with assms show ?thesis by (simp add: try_move_eq)
qed

lemma step_seated:
  "step x g = Some (e, ms, g') \<Longrightarrow> host g' = host g \<and> set (players_order g) \<subseteq> set (players_order g')"
  by (cases x) (auto simp: try_move_eq same_seats_def dest: join_frame start_frame)

lemma step_no_record:
  "step x g = Some (e, ms, g') \<Longrightarrow> \<not> by_user u x \<Longrightarrow> map_of (players g) u = None \<Longrightarrow>
   map_of (players g') u = None"
  by (cases x) (auto simp: try_move_eq by_user_def dest: join_no_record start_frame same_seats_no_record)

lemma run_returns: "\<exists>g'. run xs g = Some g'"
proof (induction xs arbitrary: g)
  case Nil
  show ?case by simp
next
  case (Cons x xs)
  obtain r where "step x g = Some r" using step_returns by blast
  with Cons.IH [of "snd (snd r)"] show ?case by simp
qed

lemma run_pot: "run xs g = Some g' \<Longrightarrow> pot g' = pot g"
proof (induction xs arbitrary: g)
  case Nil
  then show ?case by simp
next
  case (Cons x xs)
  then obtain e ms g1 where s: "step x g = Some (e, ms, g1)" and r: "run xs g1 = Some g'"
    by (auto split: option.splits)
  from Cons.IH [OF r] step_pot [OF s] show ?case by simp
qed

lemma run_chips:
  "list_all in_round xs \<Longrightarrow> modest g \<or> ongoing_round g \<Longrightarrow> run xs g = Some g' \<Longrightarrow>
   chips g' = chips g"
proof (induction xs arbitrary: g)
  case Nil
  then show ?case by simp
next
  case (Cons x xs)
  then obtain e ms g1 where s: "step x g = Some (e, ms, g1)" and r: "run xs g1 = Some g'"
    by (auto split: option.splits)
  from Cons.prems have "in_round x" "list_all in_round xs" by simp_all
  with Cons.IH [OF _ _ r] step_chips [OF _ Cons.prems(2) s] show ?case by simp
qed

lemma run_host_seat:
  "run xs g = Some g' \<Longrightarrow> list_all (\<lambda>x. \<not> by_user u x) xs \<Longrightarrow> u \<in> set (players_order g) \<Longrightarrow>
   map_of (players g) u = None \<Longrightarrow> u \<in> set (players_order g') \<and> map_of (players g') u = None"
proof (induction xs arbitrary: g)
  case Nil
  then show ?case by simp
next
  case (Cons x xs)
  then obtain e ms g1 where s: "step x g = Some (e, ms, g1)" and r: "run xs g1 = Some g'"
    by (auto split: option.splits)
  from Cons.prems have nx: "\<not> by_user u x" and nxs: "list_all (\<lambda>x. \<not> by_user u x) xs"
    by simp_all
  from step_seated [OF s] Cons.prems(3) have "u \<in> set (players_order g1)" by blast
  moreover from step_no_record [OF s nx Cons.prems(4)] have "map_of (players g1) u = None" .
  ultimately show ?case using Cons.IH [OF r nxs] by simp
qed


subsection \<open>The example tables\<close>

lemma print_game_screen_board: "print_game_screen g \<noteq> Inr NeedThreePlayers"
  by (simp add: print_game_screen_def Let_def split: sum.splits)

lemma turn_player_split:
  "turn_player g = Inr tp \<Longrightarrow> \<exists>k. turn_key g = Inr k \<and> py_getitem (players g) k = Inr tp"
  by (auto simp: turn_player_def player_at_def split: sum.splits)

lemma py_getitem_nonempty: "py_getitem d k = Inr v \<Longrightarrow> d \<noteq> []"
  by (auto simp: py_getitem_def)

lemma seated_table_reached:
  "run [Join (sent_by bob), Join (sent_by alice)] fresh_table = Some seated_table"
  by (simp add: tables join_def Let_def)

lemma blinds_table_started:
  "start (sent_by alice) seated_table =
     (None, [GameBoard ''alice'' ''bob'' ''alice'' ''alice'' 2 [MOVE_FOLD, MOVE_CALL, MOVE_RAISE]],
      blinds_table)"
  by (simp add: tables start_def py_index_def py_getitem_def move_in_def print_game_screen_def
        dealer_player_def small_blind_player_def big_blind_player_def turn_player_def turn_key_def
        player_at_def name_def)

lemma blinds_table_reached:
  "run [Join (sent_by bob), Join (sent_by alice), Start (sent_by alice)] fresh_table =
     Some blinds_table"
  using seated_table_reached by (simp add: blinds_table_started)

lemma blinds_table_turn:
  "turn_key blinds_table = Inr 1
   \<and> turn_player blinds_table = Inr (snd (seat alice 198 2 STATUS_IN))"
  by (simp add: tables turn_player_def turn_key_def player_at_def py_index_def py_getitem_def)

section \<open>The claims\<close>

text \<open>
  C1. A raise by \<open>r\<close> at table bet \<open>b\<close> should leave the table bet at \<open>b + r\<close> and the
  raiser's committed amount at exactly \<open>b + r\<close>. On the table where alice, the big blind
  with 2 committed, is to act at a bet of 2 and raises by 5, the code does neither:
  \<^verbatim>\<open>try_move\<close> raises \<^verbatim>\<open>AttributeError\<close> on its first line and changes nothing; from
  line 264 on it raises \<^verbatim>\<open>ValueError\<close> while formatting its text, before the bet is
  touched; and lines 313 and 314 themselves, run on that table, set the bet to 7 but
  move the whole 7 in on top of the 2 already committed, leaving 9.
\<close>

theorem raise_on_blinds_table:
  "try_move (sent_by alice) MOVE_RAISE (Some 5) blinds_table =
     Some (Some AttributeError, [], blinds_table)
   \<and> try_move_body (sent_by alice) MOVE_RAISE (Some 5) blinds_table =
     Some (Some ValueError, [], blinds_table)
   \<and> bet (raise_bet 1 5 blinds_table) = 7
   \<and> players (raise_bet 1 5 blinds_table) = [seat bob 199 1 STATUS_IN, seat alice 191 9 STATUS_IN]"
  by (simp add: try_move_eq try_move_body_def apply_move_def format_raised_def raise_bet_def
        move_in_def turn_key_def py_index_def py_getitem_def discord_id_def tables)

text \<open>
  C2, counterexample. The claim keeps the chips of a round constant for every sequence
  of actions. On the session with a buy-in of \<open>10\<^sup>2\<^sup>9 + 1\<close>, reached by two joins, the
  start of the round rounds both stacks that post a blind to 28 digits: the table
  holds \<open>2 \<times> 10\<^sup>2\<^sup>9 + 2\<close> before and \<open>2 \<times> 10\<^sup>2\<^sup>9\<close> after.
\<close>

theorem chips_lost_at_large_buy_in:
  "list_all in_round [Start (sent_by alice)]
   \<and> run [Join (sent_by bob), Join (sent_by alice)] large_fresh_table = Some large_seated_table
   \<and> run [Start (sent_by alice)] large_seated_table = Some large_blinds_table
   \<and> chips large_seated_table = 200000000000000000000000000002
   \<and> chips large_blinds_table = 200000000000000000000000000000"
proof -
  have joined: "run [Join (sent_by bob), Join (sent_by alice)] large_fresh_table =
      Some large_seated_table"
    by (simp add: large_fresh_table_def large_seated_table_def tables join_def Let_def)
  have started: "start (sent_by alice) large_seated_table =
      (None,
       [GameBoard ''alice'' ''bob'' ''alice'' ''alice'' 1000000000000000000000000000
          [MOVE_FOLD, MOVE_CALL, MOVE_RAISE]],
       large_blinds_table)"
    by (simp add: large_fresh_table_def large_seated_table_def large_blinds_table_def tables
          round_blind_unit round_small_blind_stack round_big_blind_stack
          start_def py_index_def py_getitem_def move_in_def print_game_screen_def
          dealer_player_def small_blind_player_def big_blind_player_def turn_player_def
          turn_key_def player_at_def name_def)
  have before: "chips large_seated_table = 200000000000000000000000000002"
    by (simp add: chips_def large_fresh_table_def large_seated_table_def tables)
  have after: "chips large_blinds_table = 200000000000000000000000000000"
    by (simp add: chips_def large_fresh_table_def large_seated_table_def
          large_blinds_table_def tables)
  from joined started before after show ?thesis by simp
qed

text \<open>
  C2, as the code has it. Chip conservation holds where the arithmetic is exact. On a
  modest table (the blind unit, the bet and every stack and committed amount with at
  most four decimal places and below \<open>10\<^sup>2\<^sup>2\<close>), every sequence of \<^verbatim>\<open>start\<close> and
  \<^verbatim>\<open>try_move\<close> commands returns and leaves the sum of all stacks, all committed
  amounts and the pot as it was. So does \<^verbatim>\<open>try_move\<close> from line 264 on, so do the two
  lines of a raise by such an amount, and so does \<^verbatim>\<open>move_in\<close> for the player it is
  called on.
\<close>

theorem chip_conservation:
  assumes "list_all in_round xs" and "modest g"
    and "few_digits a" and "few_digits (amount p)" and "few_digits (amount_in p)"
  shows "(\<exists>g'. run xs g = Some g' \<and> chips g' = chips g)
         \<and> (\<exists>e ms g'. try_move_body c mv amt g = Some (e, ms, g') \<and> chips g' = chips g)
         \<and> chips (raise_bet k a g) = chips g
         \<and> amount (move_in a p) + amount_in (move_in a p) = amount p + amount_in p"
proof -
  obtain g' where r: "run xs g = Some g'" using run_returns by blast
  obtain e ms g2 where b: "try_move_body c mv amt g = Some (e, ms, g2)"
    using try_move_body_returns [of c mv amt g] by (metis prod_cases3)
  from assms(2) have "modest g \<or> ongoing_round g" by simp
  from run_chips [OF assms(1) this r] r try_move_body_chips [OF assms(2) b] b
    raise_bet_chips [OF assms(2) assms(3), of k] move_in_stake [OF assms(3) assms(4) assms(5)]
  show ?thesis by blast
qed

text \<open>
  Witness of C2: alice starts the round on the seated table and calls; the blinds are
  posted and the table holds 400 before and after. A raise by 5 and a payment of 5 by
  alice keep the 400 and her 200 as well.
\<close>

theorem chip_conservation_witness:
  "list_all in_round [Start (sent_by alice), TryMove (sent_by alice) MOVE_CALL None]
   \<and> modest seated_table \<and> modest blinds_table \<and> few_digits 5
   \<and> run [Start (sent_by alice), TryMove (sent_by alice) MOVE_CALL None] seated_table =
       Some blinds_table
   \<and> chips seated_table = 400 \<and> chips blinds_table = 400
   \<and> (\<exists>e ms g'. try_move_body (sent_by alice) MOVE_CALL None blinds_table = Some (e, ms, g')
         \<and> chips g' = 400)
   \<and> chips (raise_bet 1 5 blinds_table) = 400
   \<and> amount (move_in 5 (snd (seat alice 198 2 STATUS_IN)))
       + amount_in (move_in 5 (snd (seat alice 198 2 STATUS_IN))) = 200"
proof -
  let ?p = "snd (seat alice 198 2 STATUS_IN)"
  have h: "list_all in_round [Start (sent_by alice), TryMove (sent_by alice) MOVE_CALL None]"
    by simp
  have m1: "modest seated_table" and m2: "modest blinds_table"
    by (simp_all add: modest_def few_digits_def tables)
  have f: "few_digits 5" "few_digits (amount ?p)" "few_digits (amount_in ?p)"
    by (simp_all add: few_digits_def seat_def)
  have r: "run [Start (sent_by alice), TryMove (sent_by alice) MOVE_CALL None] seated_table =
      Some blinds_table"
    by (simp add: blinds_table_started try_move_eq)
  have c: "chips seated_table = 400" by (simp add: chips_def tables)
  have s: "amount ?p + amount_in ?p = 200" by (simp add: seat_def)
  from chip_conservation [OF h m1 f, of "sent_by alice" MOVE_CALL None 1] r c
  have c2: "chips blinds_table = 400" by (auto simp del: run.simps)
  from chip_conservation [OF h m2 f, of "sent_by alice" MOVE_CALL None 1] c2 s
  have "(\<exists>e ms g'. try_move_body (sent_by alice) MOVE_CALL None blinds_table = Some (e, ms, g')
         \<and> chips g' = 400)
      \<and> chips (raise_bet 1 5 blinds_table) = 400
      \<and> amount (move_in 5 ?p) + amount_in (move_in 5 ?p) = 200"
    by (auto simp del: run.simps)
  with h m1 m2 f r c c2 show ?thesis by simp
qed

text \<open>
  C3. With fewer than three seats \<^verbatim>\<open>start\<close> should fail and leave the game unchanged.
  It sends the message and goes on: on a fresh session it sets both flags and the
  timestamp before \<^verbatim>\<open>IndexError\<close> stops it at the small blind's seat; with the host
  and bob seated, bob has also posted the small blind by the time it stops at the big
  blind's seat.
\<close>

theorem start_with_too_few:
  "start (sent_by alice) fresh_table =
     (Some IndexError, [NeedThreePlayers],
      fresh_table\<lparr>ongoing_game := True, ongoing_round := True, time_started := 5\<rparr>)
   \<and> join (sent_by bob) fresh_table =
     (None, [Joined ''bob''],
      fresh_table\<lparr>players := [seat bob 200 0 STATUS_IN], players_order := [1, 2]\<rparr>)
   \<and> start (sent_by alice)
        (fresh_table\<lparr>players := [seat bob 200 0 STATUS_IN], players_order := [1, 2]\<rparr>) =
     (Some IndexError, [NeedThreePlayers],
      fresh_table\<lparr>ongoing_game := True, ongoing_round := True, time_started := 5,
                  players := [seat bob 199 1 STATUS_IN], players_order := [1, 2]\<rparr>)"
  by (simp add: tables start_def join_def Let_def py_index_def py_getitem_def move_in_def)

text \<open>
  C4. A call at a positive table bet should commit the table bet minus what the player
  has already committed. On the same table alice calls the bet of 2 she has already
  matched: \<^verbatim>\<open>try_move\<close> raises \<^verbatim>\<open>AttributeError\<close> and changes nothing; from line 264 on
  the call moves the whole bet in, leaving 4 committed instead of 2, and
  \<^verbatim>\<open>_advance_turn\<close> then raises \<^verbatim>\<open>TypeError\<close>.
\<close>

theorem call_on_blinds_table:
  "try_move (sent_by alice) MOVE_CALL None blinds_table =
     Some (Some AttributeError, [], blinds_table)
   \<and> try_move_body (sent_by alice) MOVE_CALL None blinds_table =
     Some (Some TypeError, [Called ''alice''],
           blinds_table\<lparr>players := [seat bob 199 1 STATUS_IN, seat alice 196 4 STATUS_IN]\<rparr>)"
  by (simp add: try_move_eq try_move_body_def apply_move_def advance_turn_eq name_def
        move_in_def turn_key_def py_index_def py_getitem_def discord_id_def tables)

text \<open>From line 264 on, a call with no bet on the table is a check.\<close>

lemma call_without_bet_is_check:
  "bet g = 0 \<Longrightarrow> try_move_body c MOVE_CALL amt g = try_move_body c MOVE_CHECK amt g"
  by (simp add: try_move_body_def Let_def split: sum.splits)

text \<open>
  C5, counterexample. The claim accepts a check whenever the acting player's committed
  amount equals the table bet. Alice, to act with 2 committed at a bet of 2, checks and
  is refused.
\<close>

theorem check_rejected_at_matched_bet:
  "user_id (author (sent_by alice)) \<in> set (players_order blinds_table)
   \<and> (\<exists>tp. turn_player blinds_table = Inr tp
         \<and> user_id (author (sent_by alice)) = discord_id tp
         \<and> amount_in tp = bet blinds_table)
   \<and> try_move_body (sent_by alice) MOVE_CHECK None blinds_table =
       Some (None, [CantCheck 2], blinds_table)"
  by (simp add: try_move_body_def turn_player_def player_at_def turn_key_def py_index_def
        py_getitem_def discord_id_def tables)

text \<open>
  C5, as the code has it. From line 264 on, a check by the acting player is refused
  with the cannot-check message, the game unchanged, exactly when the table bet is
  positive, whatever the player has committed; otherwise the check is announced and
  no player, bet or pot changes.
\<close>

theorem check_accepted_iff_no_bet:
  assumes "user_id (author c) \<in> set (players_order g)"
    and "turn_player g = Inr tp"
    and "user_id (author c) = discord_id tp"
  shows "(try_move_body c MOVE_CHECK amt g = Some (None, [CantCheck (bet g)], g)) = (0 < bet g)
         \<and> (\<exists>e g'. try_move_body c MOVE_CHECK amt g = Some (e, [Checked (name tp)], g')
                \<and> players g' = players g \<and> bet g' = bet g \<and> pot g' = pot g)
           = (\<not> 0 < bet g)"
proof -
  from turn_player_split [OF assms(2)] obtain k where
    k: "turn_key g = Inr k" "py_getitem (players g) k = Inr tp" by blast
  from py_getitem_nonempty [OF k(2)] have ne: "players g \<noteq> []" .
  show ?thesis
  proof (cases "0 < bet g")
    case True
    with assms k show ?thesis by (simp add: try_move_body_def)
  next
    case False
    with assms k ne show ?thesis
      by (simp add: try_move_body_def apply_move_def advance_turn_eq)
  qed
qed

text \<open>Witness of C5: alice's check at a bet of 2, and at no bet.\<close>

theorem check_accepted_iff_no_bet_witness:
  "0 < bet blinds_table
   \<and> try_move_body (sent_by alice) MOVE_CHECK None blinds_table =
       Some (None, [CantCheck (bet blinds_table)], blinds_table)
   \<and> \<not> 0 < bet no_bet_table
   \<and> (\<exists>e g'. try_move_body (sent_by alice) MOVE_CHECK None no_bet_table =
               Some (e, [Checked ''alice''], g')
         \<and> players g' = players no_bet_table \<and> bet g' = bet no_bet_table
         \<and> pot g' = pot no_bet_table)"
proof -
  let ?tp = "snd (seat alice 198 2 STATUS_IN)"
  have a1: "user_id (author (sent_by alice)) \<in> set (players_order blinds_table)"
    and a2: "turn_player blinds_table = Inr ?tp"
    and a3: "user_id (author (sent_by alice)) = discord_id ?tp"
    by (simp_all add: blinds_table_turn) (simp_all add: tables discord_id_def)
  have b1: "user_id (author (sent_by alice)) \<in> set (players_order no_bet_table)"
    and b2: "turn_player no_bet_table = Inr ?tp"
    by (simp_all add: tables turn_player_def turn_key_def player_at_def py_index_def
          py_getitem_def)
  have pos: "0 < bet blinds_table" and zero: "\<not> 0 < bet no_bet_table"
    and n: "name ?tp = ''alice''"
    by (simp_all add: tables name_def)
  from check_accepted_iff_no_bet [OF a1 a2 a3, of None]
    check_accepted_iff_no_bet [OF b1 b2 a3, of None] pos zero n
  show ?thesis by simp
qed

text \<open>
  C6. When all but one player have folded, the one left should be awarded the pot and
  the round should end. With four players of whom alice and bob have folded, carol
  folds: \<^verbatim>\<open>try_move\<close> raises \<^verbatim>\<open>AttributeError\<close>; from line 264 on carol is marked
  folded and \<^verbatim>\<open>_advance_turn\<close> raises \<^verbatim>\<open>TypeError\<close> while counting the folded
  players. Dave, the last player in, holds what he held, the pot is 0 and the round
  is still marked ongoing.
\<close>

theorem last_fold_wins_nothing:
  "try_move (sent_by carol) MOVE_FOLD None last_fold_table =
     Some (Some AttributeError, [], last_fold_table)
   \<and> try_move_body (sent_by carol) MOVE_FOLD None last_fold_table =
     Some (Some TypeError, [Folded ''carol''], three_folded_table)
   \<and> advance_turn [] three_folded_table = Some (Some TypeError, [], three_folded_table)
   \<and> ongoing_round three_folded_table
   \<and> map_of (players three_folded_table) 4 = Some (snd (seat dave 198 2 STATUS_IN))
   \<and> pot three_folded_table = 0"
  by (simp add: try_move_eq try_move_body_def apply_move_def advance_turn_eq name_def
        turn_key_def py_index_def py_getitem_def discord_id_def tables)

text \<open>
  C7. The stage should be 0, 1, 2, 3 for 0, 3, 4, 5 cards on the board. The code
  counts the empty slots instead of the filled ones: a fresh game is at stage 3, the
  river board is at stage 0, and the flop and turn boards raise \<^verbatim>\<open>ValueError\<close>.
\<close>

theorem stage_counts_empty_slots:
  "stage fresh_table = Inr 3 \<and> stage flop_table = Inl ValueError
   \<and> stage turn_table = Inl ValueError \<and> stage river_table = Inr 0"
  by (simp add: stage_def ROUND_STAGES_def fresh_table_def flop_table_def turn_table_def
        river_table_def PokerGame_init_def)

text \<open>
  C8, counterexample. The claim refuses a call or raise only when stack plus committed
  is below the table bet. At a bet of 200 alice holds 198 and has 2 committed, which is
  not below the bet, and both her call and her raise are refused.
\<close>

theorem all_in_forced_at_exact_stack:
  "user_id (author (sent_by alice)) \<in> set (players_order high_bet_table)
   \<and> (\<exists>tp. turn_player high_bet_table = Inr tp
         \<and> user_id (author (sent_by alice)) = discord_id tp
         \<and> \<not> amount tp + amount_in tp < bet high_bet_table)
   \<and> try_move_body (sent_by alice) MOVE_CALL None high_bet_table =
       Some (None, [MustGoAllIn], high_bet_table)
   \<and> try_move_body (sent_by alice) MOVE_RAISE (Some 5) high_bet_table =
       Some (None, [MustGoAllIn], high_bet_table)"
  by (simp add: try_move_body_def turn_player_def player_at_def turn_key_def py_index_def
        py_getitem_def discord_id_def tables)

text \<open>
  C8, as the code has it. From line 264 on, a raise, or a call at a non-zero table
  bet, by the acting player is refused with the must-go-all-in message, the game
  unchanged, exactly when stack plus committed, the sum as the code adds it, is at
  most the table bet.
\<close>

theorem must_go_all_in_iff:
  assumes "user_id (author c) \<in> set (players_order g)"
    and "turn_player g = Inr tp"
    and "user_id (author c) = discord_id tp"
    and "mv = MOVE_RAISE \<or> mv = MOVE_CALL \<and> bet g \<noteq> 0"
  shows "(try_move_body c mv amt g = Some (None, [MustGoAllIn], g))
           = (dec_add (amount tp) (amount_in tp) \<le> bet g)"
proof -
  from turn_player_split [OF assms(2)] obtain k where
    k: "turn_key g = Inr k" "py_getitem (players g) k = Inr tp" by blast
  from py_getitem_nonempty [OF k(2)] have ne: "players g \<noteq> []" .
  from assms(4) show ?thesis
  proof
    assume "mv = MOVE_RAISE"
    with assms k show ?thesis
      by (simp add: try_move_body_def apply_move_def format_raised_def split: option.splits)
  next
    assume "mv = MOVE_CALL \<and> bet g \<noteq> 0"
    with assms k ne show ?thesis
      by (simp add: try_move_body_def apply_move_def advance_turn_eq update_player_Nil)
  qed
qed

text \<open>
  Witness of C8: alice's call is refused at a bet of 200; at a bet of 2 neither her
  call nor her raise is.
\<close>

theorem must_go_all_in_iff_witness:
  "try_move_body (sent_by alice) MOVE_CALL None high_bet_table =
     Some (None, [MustGoAllIn], high_bet_table)
   \<and> try_move_body (sent_by alice) MOVE_CALL None blinds_table \<noteq>
     Some (None, [MustGoAllIn], blinds_table)
   \<and> try_move_body (sent_by alice) MOVE_RAISE (Some 5) blinds_table \<noteq>
     Some (None, [MustGoAllIn], blinds_table)"
proof -
  let ?tp = "snd (seat alice 198 2 STATUS_IN)"
  have a1: "user_id (author (sent_by alice)) \<in> set (players_order blinds_table)"
    and a2: "turn_player blinds_table = Inr ?tp"
    and a3: "user_id (author (sent_by alice)) = discord_id ?tp"
    by (simp_all add: blinds_table_turn) (simp_all add: tables discord_id_def)
  have b1: "user_id (author (sent_by alice)) \<in> set (players_order high_bet_table)"
    and b2: "turn_player high_bet_table = Inr ?tp"
    by (simp_all add: tables turn_player_def turn_key_def player_at_def py_index_def
          py_getitem_def)
  have m1: "MOVE_CALL = MOVE_RAISE \<or> MOVE_CALL = MOVE_CALL \<and> bet high_bet_table \<noteq> 0"
    and m2: "MOVE_CALL = MOVE_RAISE \<or> MOVE_CALL = MOVE_CALL \<and> bet blinds_table \<noteq> 0"
    and m3: "MOVE_RAISE = MOVE_RAISE \<or> MOVE_RAISE = MOVE_CALL \<and> bet blinds_table \<noteq> 0"
    by (simp_all add: tables)
  have v: "dec_add (amount ?tp) (amount_in ?tp) \<le> bet high_bet_table"
    "\<not> dec_add (amount ?tp) (amount_in ?tp) \<le> bet blinds_table"
    by (simp_all add: tables)
  from must_go_all_in_iff [OF b1 b2 a3 m1, of None] must_go_all_in_iff [OF a1 a2 a3 m2, of None]
    must_go_all_in_iff [OF a1 a2 a3 m3, of "Some 5"] v
  show ?thesis by simp
qed

text \<open>
  C9. No command changes the pot: after every sequence of join, start and move
  commands on a new session, the sequence has returned and the pot is 0. Nor does
  \<^verbatim>\<open>try_move\<close> from line 264 on, or the two lines of a raise, change the pot of any
  game.
\<close>

theorem pot_stays_zero:
  "(\<exists>g. run xs (PokerGame_init cur h rl b t) = Some g \<and> pot g = 0)
   \<and> (\<exists>e ms g'. try_move_body c mv amt g = Some (e, ms, g') \<and> pot g' = pot g)
   \<and> pot (raise_bet k a g) = pot g"
proof -
  obtain g1 where r: "run xs (PokerGame_init cur h rl b t) = Some g1"
    using run_returns by blast
  from run_pot [OF r] have z: "pot g1 = 0" by (simp add: PokerGame_init_def)
  obtain e ms g2 where m: "try_move_body c mv amt g = Some (e, ms, g2)"
    using try_move_body_returns [of c mv amt g] by (metis prod_cases3)
  from r z m try_move_body_frame [OF m] raise_bet_frame [of g k a]
  show ?thesis by blast
qed

text \<open>
  Witness of C9: the pot is still 0 after bob and alice join, alice starts the round
  and calls.
\<close>

theorem pot_stays_zero_witness:
  "\<exists>g. run [Join (sent_by bob), Join (sent_by alice), Start (sent_by alice),
            TryMove (sent_by alice) MOVE_CALL None] fresh_table = Some g
       \<and> pot g = 0"
  using pot_stays_zero
    [of "[Join (sent_by bob), Join (sent_by alice), Start (sent_by alice),
          TryMove (sent_by alice) MOVE_CALL None]" "[(''symbol'', ''$'')]" alice 3 200 0,
     THEN conjunct1]
  by (simp only: fresh_table_def)

text \<open>
  C10. A new session seats the host but holds no player record. The host's seat counts
  for the three-seat check of \<^verbatim>\<open>start\<close>: after one join the host is told that three
  players are needed, after two joins by different users he is not. And after any
  sequence of commands in which the host has not joined, the host is seated and still
  has no player record; \<^verbatim>\<open>try_move\<close> from line 264 on changes neither the seating nor
  the keys of the dict.
\<close>

theorem host_seated_without_record:
  assumes "user_id (author ca) \<noteq> user_id (author cb)"
    and "user_id (author ch) = user_id h"
    and "list_all (\<lambda>x. \<not> by_user (user_id h) x) xs"
  shows "players (PokerGame_init cur h rl b t) = []
         \<and> players_order (PokerGame_init cur h rl b t) = [user_id h]
         \<and> NeedThreePlayers \<in> set (fst (snd (start ch
               (snd (snd (join ca (PokerGame_init cur h rl b t)))))))
         \<and> NeedThreePlayers \<notin> set (fst (snd (start ch
               (snd (snd (join cb (snd (snd (join ca (PokerGame_init cur h rl b t))))))))))
         \<and> (\<exists>g. run xs (PokerGame_init cur h rl b t) = Some g
               \<and> user_id h \<in> set (players_order g)
               \<and> map_of (players g) (user_id h) = None)
         \<and> (\<exists>e ms g'. try_move_body c mv amt g = Some (e, ms, g') \<and> same_seats g g')"
proof -
  let ?g0 = "PokerGame_init cur h rl b t"
  have init: "players ?g0 = []" "players_order ?g0 = [user_id h]"
    by (simp_all add: PokerGame_init_def)
  have j1: "length (players_order (snd (snd (join ca ?g0)))) = 2"
    "\<not> ongoing_round (snd (snd (join ca ?g0)))" "host (snd (snd (join ca ?g0))) = h"
    by (simp_all add: join_def PokerGame_init_def Let_def)
  have j2: "length (players_order (snd (snd (join cb (snd (snd (join ca ?g0))))))) = 3"
    "\<not> ongoing_round (snd (snd (join cb (snd (snd (join ca ?g0))))))"
    "host (snd (snd (join cb (snd (snd (join ca ?g0)))))) = h"
    using assms(1) by (simp_all add: join_def PokerGame_init_def Let_def PokerPlayer_init_def)
  have few: "NeedThreePlayers \<in> set (fst (snd (start ch g)))"
    if "length (players_order g) = 2" "\<not> ongoing_round g" "host g = h" for g
    using that assms(2) unfolding start_def Let_def
    by (auto split: sum.splits)
  have enough: "NeedThreePlayers \<notin> set (fst (snd (start ch g)))"
    if "length (players_order g) = 3" "\<not> ongoing_round g" "host g = h" for g
    using that assms(2) unfolding start_def Let_def
    by (auto simp: print_game_screen_board split: sum.splits)
  obtain g1 where r: "run xs ?g0 = Some g1" using run_returns by blast
  from run_host_seat [OF r assms(3)] init
  have "user_id h \<in> set (players_order g1) \<and> map_of (players g1) (user_id h) = None"
    by simp
  with r have seq: "\<exists>g. run xs ?g0 = Some g \<and> user_id h \<in> set (players_order g)
      \<and> map_of (players g) (user_id h) = None"
    by blast
  obtain e ms g2 where m: "try_move_body c mv amt g = Some (e, ms, g2)"
    using try_move_body_returns [of c mv amt g] by (metis prod_cases3)
  with try_move_body_frame [OF m]
  have mv: "\<exists>e ms g'. try_move_body c mv amt g = Some (e, ms, g') \<and> same_seats g g'"
    by blast
  from init few [OF j1] enough [OF j2] seq mv show ?thesis by blast
qed

text \<open>Witness of C10: bob and carol join alice's session and alice starts the round.\<close>

theorem host_seated_without_record_witness:
  "user_id (author (sent_by bob)) \<noteq> user_id (author (sent_by carol))
   \<and> user_id (author (sent_by alice)) = user_id alice
   \<and> list_all (\<lambda>x. \<not> by_user (user_id alice) x)
        [Join (sent_by bob), Join (sent_by carol), Start (sent_by alice)]
   \<and> players fresh_table = [] \<and> players_order fresh_table = [1]
   \<and> (\<exists>g. run [Join (sent_by bob), Join (sent_by carol), Start (sent_by alice)] fresh_table
            = Some g
         \<and> user_id alice \<in> set (players_order g) \<and> map_of (players g) (user_id alice) = None)"
proof -
  have a: "user_id (author (sent_by bob)) \<noteq> user_id (author (sent_by carol))"
    and h: "user_id (author (sent_by alice)) = user_id alice"
    and n: "list_all (\<lambda>x. \<not> by_user (user_id alice) x)
        [Join (sent_by bob), Join (sent_by carol), Start (sent_by alice)]"
    by (simp_all add: tables by_user_def)
  from host_seated_without_record [OF a h n, of "[(''symbol'', ''$'')]" 3 200 0] a h n
  show ?thesis by (simp add: fresh_table_def alice_def del: run.simps)
qed

end
